theory Spec2Isabelle
  imports Main "HOL-Library.Word"
begin

section \<open>Python values used by the scale reader\<close>

text \<open>
  A Python \<open>str\<close> is a sequence of code points; it is modelled as the list of
  their numbers, so that \<open>ord\<close> is the reading of an element and \<open>len\<close> is
  \<open>length\<close>. A \<open>bytes\<close> value is a list of 8-bit words. The debug \<open>print\<close>
  calls of the source and the \<open>time.sleep\<close> between iterations are left out.
\<close>

type_synonym pystr = "nat list"

type_synonym byte = "8 word"

datatype error = ValueError | SerialException

text \<open>\<open>ord(c)\<close> for a one-character string.\<close>

definition py_ord :: "nat \<Rightarrow> int" where
  "py_ord c = int c"

text \<open>\<open>chr(i)\<close>: raises \<open>ValueError\<close> outside \<open>range(0x110000)\<close>.\<close>

definition py_chr :: "int \<Rightarrow> error + nat" where
  "py_chr i = (if 0 \<le> i \<and> i < 0x110000 then Inr (nat i) else Inl ValueError)"

text \<open>A string literal of the source, as code points.\<close>

definition lit :: "string \<Rightarrow> pystr" where
  "lit s = map of_char s"

text \<open>\<open>data.decode('latin-1', errors='ignore')\<close>: every byte is one code point.\<close>

definition decode_latin1 :: "byte list \<Rightarrow> pystr" where
  "decode_latin1 data = map unat data"

text \<open>\<open>s.find(c)\<close> for a one-character \<open>c\<close>: the lowest index, or \<open>-1\<close>.\<close>

fun str_find_from :: "nat \<Rightarrow> pystr \<Rightarrow> nat \<Rightarrow> int" where
  "str_find_from i [] c = - 1"
| "str_find_from i (x # xs) c = (if x = c then int i else str_find_from (Suc i) xs c)"

definition str_find :: "pystr \<Rightarrow> nat \<Rightarrow> int" where
  "str_find s c = str_find_from 0 s c"

text \<open>
  \<open>s[i:j]\<close>: a negative bound counts from the end, and both bounds are clamped to
  \<open>0 .. len(s)\<close>; a slice never raises.
\<close>

definition str_slice :: "pystr \<Rightarrow> int \<Rightarrow> int \<Rightarrow> pystr" where
  "str_slice s i j =
     (let n = int (length s);
          lo = (if i < 0 then max 0 (i + n) else min i n);
          hi = (if j < 0 then max 0 (j + n) else min j n)
      in take (nat (hi - lo)) (drop (nat lo) s))"

section \<open>transformar\_trama\<close>

text \<open>
  The loop of \<open>transformar_trama\<close> appends to \<open>nueva\<close> one character for each
  character of \<open>trama\<close>; an exception of \<open>chr\<close> would leave the function.
\<close>

fun transformar_trama_loop :: "pystr \<Rightarrow> pystr \<Rightarrow> error + pystr" where
  "transformar_trama_loop nueva [] = Inr nueva"
| "transformar_trama_loop nueva (c # cs) =
     (if py_ord c \<ge> 0x80 then
        (case py_chr (py_ord c - 0x80) of
           Inl e \<Rightarrow> Inl e
         | Inr d \<Rightarrow> transformar_trama_loop (nueva @ [d]) cs)
      else transformar_trama_loop (nueva @ [c]) cs)"

definition transformar_trama :: "pystr \<Rightarrow> error + pystr" where
  "transformar_trama trama = transformar_trama_loop [] trama"

section \<open>BalanzaApp\<close>

text \<open>
  The fields of \<open>BalanzaApp\<close> that the reading logic uses: the accumulated frame
  \<open>cPeso\<close>, the published weight \<open>txtPeso\<close> and frame \<open>txtTrama\<close>, the flag
  \<open>timer_active\<close>, and \<open>is_open\<close> for \<open>oComm.is_open\<close>.
\<close>

record BalanzaApp =
  cPeso :: pystr
  txtPeso :: pystr
  txtTrama :: pystr
  timer_active :: bool
  is_open :: bool

text \<open>\<open>BalanzaApp.__init__\<close>: the port is configured and not opened.\<close>

definition BalanzaApp_init :: BalanzaApp where
  "BalanzaApp_init =
     \<lparr>cPeso = [], txtPeso = lit ''----'', txtTrama = [], timer_active = False,
      is_open = False\<rparr>"

text \<open>
  The serial port belongs to the environment. What its calls do during one
  iteration of the loop, or during one call of \<open>toggle_connection\<close>, is an input:
  each call either raises or returns. \<open>oComm_read\<close> holds the bytes waiting in the
  driver; \<open>read(n)\<close> returns at most \<open>n\<close> of them.
\<close>

record oComm_calls =
  oComm_open :: "error + unit"
  oComm_in_waiting :: "error + int"
  oComm_read :: "error + byte list"
  oComm_close :: "error + unit"

subsection \<open>One iteration of oTimer\_Tick\<close>

text \<open>
  A statement that raises yields \<open>Inl\<close> of the exception and of the object as the
  statements before it left it.
\<close>

type_synonym outcome = "(error \<times> BalanzaApp) + BalanzaApp"

text \<open>The read step: \<open>in_waiting\<close>, \<open>read\<close>, \<open>decode\<close> and the append to \<open>cPeso\<close>.\<close>

definition oTimer_Tick_read :: "oComm_calls \<Rightarrow> BalanzaApp \<Rightarrow> outcome" where
  "oTimer_Tick_read io self =
     (case oComm_in_waiting io of
        Inl e \<Rightarrow> Inl (e, self)
      | Inr in_waiting \<Rightarrow>
          if in_waiting > 0 then
            (case oComm_read io of
               Inl e \<Rightarrow> Inl (e, self)
             | Inr waiting \<Rightarrow>
                 (let data = take (nat in_waiting) waiting;
                      chunk = decode_latin1 data
                  in Inr (self\<lparr>cPeso := cPeso self @ chunk\<rparr>)))
          else Inr self)"

text \<open>
  The value assigned to \<open>txtPeso\<close> once the frame is transformed: the search for
  STX and the slice of six characters, or the four dashes.
\<close>

definition oTimer_Tick_weight :: "pystr \<Rightarrow> pystr" where
  "oTimer_Tick_weight trama_corregida =
     (let pos = str_find trama_corregida 0x02 in
      if pos \<noteq> - 1 then
        (let start_idx = pos + 4
         in str_slice trama_corregida start_idx (start_idx + 6))
      else lit ''----'')"

text \<open>The statements after the read step, from the test of \<open>len(self.cPeso)\<close> on.\<close>

definition oTimer_Tick_process :: "BalanzaApp \<Rightarrow> outcome" where
  "oTimer_Tick_process self =
     (if int (length (cPeso self)) \<ge> 30 then
        (case transformar_trama (cPeso self) of
           Inl e \<Rightarrow> Inl (e, self)
         | Inr trama_corregida \<Rightarrow>
             Inr (self\<lparr>txtTrama := trama_corregida,
                       txtPeso := oTimer_Tick_weight trama_corregida,
                       cPeso := []\<rparr>))
      else if length (cPeso self) = 0 then Inr (self\<lparr>txtPeso := lit ''----''\<rparr>)
      else Inr self)"

text \<open>The body of the \<open>try\<close>.\<close>

definition oTimer_Tick_try :: "oComm_calls \<Rightarrow> BalanzaApp \<Rightarrow> outcome" where
  "oTimer_Tick_try io self =
     (if is_open self then
        (case oTimer_Tick_read io self of
           Inl x \<Rightarrow> Inl x
         | Inr self' \<Rightarrow> oTimer_Tick_process self')
      else Inr self)"

text \<open>
  The \<open>except Exception\<close> clause: the flag is cleared and the port is closed; an
  exception of \<open>close\<close> is swallowed by the inner \<open>try\<close>, and then leaves the port
  as it was.
\<close>

definition oTimer_Tick_except :: "oComm_calls \<Rightarrow> BalanzaApp \<Rightarrow> BalanzaApp" where
  "oTimer_Tick_except io self =
     (let self' = self\<lparr>timer_active := False\<rparr> in
      if is_open self' then
        (case oComm_close io of
           Inl e \<Rightarrow> self'
         | Inr u \<Rightarrow> self'\<lparr>is_open := False\<rparr>)
      else self')"

text \<open>One iteration of the \<open>while\<close> loop.\<close>

definition oTimer_Tick_iteration :: "oComm_calls \<Rightarrow> BalanzaApp \<Rightarrow> BalanzaApp" where
  "oTimer_Tick_iteration io self =
     (case oTimer_Tick_try io self of
        Inl (e, self') \<Rightarrow> oTimer_Tick_except io self'
      | Inr self' \<Rightarrow> self')"

subsection \<open>The loop\<close>

text \<open>
  \<open>oTimer_Tick\<close> runs while \<open>timer_active\<close> holds, one element of the list of port
  behaviours for each iteration. \<open>Some\<close> is the object when the loop has ended;
  \<open>None\<close> says that the loop is still running when the list is used up.
\<close>

fun oTimer_Tick :: "oComm_calls list \<Rightarrow> BalanzaApp \<Rightarrow> BalanzaApp option" where
  "oTimer_Tick [] self = (if timer_active self then None else Some self)"
| "oTimer_Tick (io # ios) self =
     (if timer_active self then oTimer_Tick ios (oTimer_Tick_iteration io self)
      else Some self)"

subsection \<open>toggle\_connection and the status endpoint\<close>

text \<open>
  \<open>toggle_connection\<close> re-raises what \<open>open\<close> or \<open>close\<close> raise. In the branch that
  stops the reading, \<open>join\<close> waits for the loop's thread: \<open>pending\<close> is the
  iteration that the thread completes meanwhile, if it was inside one.
\<close>

definition toggle_connection ::
  "oComm_calls \<Rightarrow> oComm_calls option \<Rightarrow> BalanzaApp \<Rightarrow> outcome" where
  "toggle_connection io pending self =
     (if \<not> timer_active self then
        (case oComm_open io of
           Inl e \<Rightarrow> Inl (e, self)
         | Inr u \<Rightarrow> Inr (self\<lparr>is_open := True, timer_active := True\<rparr>))
      else
        (let self1 = self\<lparr>timer_active := False\<rparr>;
             self2 = (case pending of
                        None \<Rightarrow> self1
                      | Some tio \<Rightarrow> oTimer_Tick_iteration tio self1)
         in if is_open self2 then
              (case oComm_close io of
                 Inl e \<Rightarrow> Inl (e, self2)
               | Inr u \<Rightarrow> Inr (self2\<lparr>is_open := False, txtPeso := lit ''0'', cPeso := []\<rparr>))
            else Inr (self2\<lparr>txtPeso := lit ''0'', cPeso := []\<rparr>)))"

text \<open>
  \<open>home\<close>, the handler of \<open>GET /weight/\<close>: the fields \<open>peso\<close>, \<open>trama\<close> and
  \<open>timer_active\<close> of the answer (the time stamp is left out).
\<close>

definition home :: "BalanzaApp \<Rightarrow> pystr \<times> pystr \<times> bool" where
  "home balanza = (txtPeso balanza, txtTrama balanza, timer_active balanza)"

subsection \<open>Strings of decoded bytes\<close>

text \<open>
  Every string that the loop puts into \<open>cPeso\<close> comes from a Latin-1 decoding, so
  its code points are byte values. \<open>latin1\<close> says so of a string; \<open>clear_high\<close>
  is the subtraction of \<open>0x80\<close> from one such code point, used to state what the
  loop of \<open>transformar_trama\<close> computes.
\<close>

fun latin1 :: "pystr \<Rightarrow> bool" where
  "latin1 [] = True"
| "latin1 (c # cs) = (c < 256 \<and> latin1 cs)"

definition clear_high :: "nat \<Rightarrow> nat" where
  "clear_high c = (if 0x80 \<le> c then c - 0x80 else c)"

subsection \<open>Reachable objects\<close>

text \<open>
  The objects that the program can hold: the one built by \<open>__init__\<close>, and those
  that an iteration of the running loop or a call of \<open>toggle_connection\<close>, returning
  or raising, leaves behind.
\<close>

inductive reachable :: "BalanzaApp \<Rightarrow> bool" where
  init: "reachable BalanzaApp_init"
| tick: "reachable self \<Longrightarrow> timer_active self \<Longrightarrow>
         reachable (oTimer_Tick_iteration io self)"
| toggle: "reachable self \<Longrightarrow> toggle_connection io pending self = Inr self' \<Longrightarrow>
           reachable self'"
| toggle_raises: "reachable self \<Longrightarrow> toggle_connection io pending self = Inl (e, self') \<Longrightarrow>
           reachable self'"

subsection \<open>Test inputs\<close>

text \<open>
  Concrete objects and port behaviours at which the theorems below are evaluated:
  an object just started and one that has published a weight; a port that holds
  the given bytes, one whose \<open>read\<close> raises, and one whose every call raises; the
  twelve bytes of the end-to-end example of the specification, and padding.
\<close>

abbreviation polling :: BalanzaApp where
  "polling \<equiv>
     \<lparr>cPeso = [], txtPeso = lit ''----'', txtTrama = [], timer_active = True,
      is_open = True\<rparr>"

abbreviation weighing :: BalanzaApp where
  "weighing \<equiv>
     \<lparr>cPeso = [], txtPeso = lit ''001234'', txtTrama = lit ''frame'', timer_active = True,
      is_open = True\<rparr>"

abbreviation port_with :: "byte list \<Rightarrow> oComm_calls" where
  "port_with waiting \<equiv>
     \<lparr>oComm_open = Inr (), oComm_in_waiting = Inr (int (length waiting)),
      oComm_read = Inr waiting, oComm_close = Inr ()\<rparr>"

abbreviation port_read_failing :: oComm_calls where
  "port_read_failing \<equiv>
     \<lparr>oComm_open = Inr (), oComm_in_waiting = Inr 5,
      oComm_read = Inl SerialException, oComm_close = Inr ()\<rparr>"

abbreviation port_failing :: oComm_calls where
  "port_failing \<equiv>
     \<lparr>oComm_open = Inl SerialException, oComm_in_waiting = Inl SerialException,
      oComm_read = Inl SerialException, oComm_close = Inl SerialException\<rparr>"

abbreviation spec_head :: "byte list" where
  "spec_head \<equiv> [0x82, 0x8D, 0x02, 0x00, 0x00, 0x00, 0x31, 0x32, 0x33, 0x34, 0x35, 0x36]"

abbreviation spaces18 :: "byte list" where
  "spaces18 \<equiv>
     [0x20, 0x20, 0x20, 0x20, 0x20, 0x20, 0x20, 0x20, 0x20,
      0x20, 0x20, 0x20, 0x20, 0x20, 0x20, 0x20, 0x20, 0x20]"

abbreviation blank_frame :: "byte list" where
  "blank_frame \<equiv> spaces18 @ [0x20, 0x20, 0x20, 0x20, 0x20, 0x20, 0x20, 0x20, 0x20, 0x20, 0x20, 0x20]"

section \<open>Properties of the transformation\<close>

lemma latin1_set: "latin1 s \<longleftrightarrow> (\<forall>c\<in>set s. c < 256)"
  by (induction s) auto

lemma latin1_append: "latin1 (s @ t) \<longleftrightarrow> latin1 s \<and> latin1 t"
  by (induction s) auto

lemma latin1_decode: "latin1 (decode_latin1 data)"
proof (induction data)
  case Nil
  show ?case by (simp add: decode_latin1_def)
next
  case (Cons b bs)
  have "unat b < 2 ^ LENGTH(8)" by (rule unsigned_less)
  then have "unat b < 256" by simp
  with Cons show ?case by (simp add: decode_latin1_def)
qed

text \<open>
  With the accumulator generalised, the loop appends the image of each character;
  \<open>chr\<close> cannot raise on a valid code point lowered by \<open>0x80\<close>.
\<close>

lemma transformar_trama_loop_map:
  "\<forall>c\<in>set s. c < 0x110000 \<Longrightarrow>
   transformar_trama_loop nueva s = Inr (nueva @ map clear_high s)"
  by (induction s arbitrary: nueva) (auto simp: py_ord_def py_chr_def clear_high_def)

lemma transformar_trama_latin1:
  assumes "latin1 s"
  shows "transformar_trama s = Inr (map clear_high s)"
proof -
  have "\<forall>c\<in>set s. c < 0x110000"
    using assms by (auto simp: latin1_set)
  then show ?thesis
    by (simp add: transformar_trama_def transformar_trama_loop_map)
qed

lemma clear_high_low: "c < 256 \<Longrightarrow> clear_high c < 0x80"
  by (auto simp: clear_high_def)

lemma clear_high_idem: "c < 0x80 \<Longrightarrow> clear_high c = c"
  by (simp add: clear_high_def)

lemma latin1_map_clear_high: "latin1 s \<Longrightarrow> latin1 (map clear_high s)"
  by (induction s) (auto simp: clear_high_def)

text \<open>
  C5. On every string of byte values \<open>transformar_trama\<close> returns, without raising,
  a string of the same length; its \<open>i\<close>-th character is the \<open>i\<close>-th character of
  the input minus \<open>0x80\<close> when that one is at least \<open>0x80\<close>, and the \<open>i\<close>-th
  character itself otherwise.
\<close>

theorem transformar_trama_bytewise:
  assumes "latin1 s"
  shows "\<exists>t. transformar_trama s = Inr t \<and> length t = length s \<and>
           (\<forall>i<length s. int (t ! i) =
              (if 0x80 \<le> s ! i then int (s ! i) - 0x80 else int (s ! i)))"
proof -
  have "\<forall>i<length s. int (map clear_high s ! i) =
          (if 0x80 \<le> s ! i then int (s ! i) - 0x80 else int (s ! i))"
    by (simp add: clear_high_def)
  then show ?thesis
    using transformar_trama_latin1 [OF assms] by simp
qed

theorem transformar_trama_bytewise_witness:
  "latin1 [0x82, 0x41, 0xFF, 0x00, 0x80, 0x7F] \<and>
   transformar_trama [0x82, 0x41, 0xFF, 0x00, 0x80, 0x7F] =
     Inr [0x02, 0x41, 0x7F, 0x00, 0x00, 0x7F] \<and>
   length [0x02, 0x41, 0x7F, 0x00, 0x00, 0x7F :: nat] =
     length [0x82, 0x41, 0xFF, 0x00, 0x80, 0x7F :: nat] \<and>
   int ([0x02, 0x41, 0x7F, 0x00, 0x00, 0x7F] ! 2) =
     int ([0x82, 0x41, 0xFF, 0x00, 0x80, 0x7F] ! 2) - 0x80"
proof -
  let ?s = "[0x82, 0x41, 0xFF, 0x00, 0x80, 0x7F] :: pystr"
  have h: "latin1 ?s" by simp
  have v: "transformar_trama ?s = Inr [0x02, 0x41, 0x7F, 0x00, 0x00, 0x7F]"
    by (simp add: transformar_trama_def py_ord_def py_chr_def)
  obtain t where t: "transformar_trama ?s = Inr t" and len: "length t = length ?s"
    and nth: "\<forall>i<length ?s. int (t ! i) =
              (if 0x80 \<le> ?s ! i then int (?s ! i) - 0x80 else int (?s ! i))"
    using transformar_trama_bytewise [OF h] by blast
  from t v have eq: "t = [0x02, 0x41, 0x7F, 0x00, 0x00, 0x7F]" by simp
  from nth have "int (t ! 2) = int (?s ! 2) - 0x80" by simp
  with h v len eq show ?thesis by simp
qed

text \<open>
  C10. On every string of byte values, every character of the result of
  \<open>transformar_trama\<close> has a code point below \<open>0x80\<close>, and transforming the
  result again returns it unchanged.
\<close>

theorem transformar_trama_idempotent:
  assumes "latin1 s"
  shows "\<exists>t. transformar_trama s = Inr t \<and> (\<forall>i<length t. t ! i < 0x80) \<and>
           transformar_trama t = Inr t"
proof -
  let ?t = "map clear_high s"
  have low: "\<forall>c\<in>set ?t. c < 0x80"
    using assms by (auto simp: latin1_set clear_high_low)
  then have "latin1 ?t"
    by (auto simp: latin1_set)
  then have "transformar_trama ?t = Inr (map clear_high ?t)"
    by (rule transformar_trama_latin1)
  moreover have "map clear_high ?t = ?t"
    using low by (simp add: clear_high_idem map_idI)
  moreover have "\<forall>i<length ?t. ?t ! i < 0x80"
    using low by (metis nth_mem)
  ultimately show ?thesis
    using transformar_trama_latin1 [OF assms] by simp
qed

theorem transformar_trama_idempotent_witness:
  "latin1 [0x82, 0x8D, 0x31, 0xFF] \<and>
   transformar_trama [0x82, 0x8D, 0x31, 0xFF] = Inr [0x02, 0x0D, 0x31, 0x7F] \<and>
   transformar_trama [0x02, 0x0D, 0x31, 0x7F] = Inr [0x02, 0x0D, 0x31, 0x7F]"
proof -
  let ?s = "[0x82, 0x8D, 0x31, 0xFF] :: pystr"
  have h: "latin1 ?s" by simp
  have v: "transformar_trama ?s = Inr [0x02, 0x0D, 0x31, 0x7F]"
    by (simp add: transformar_trama_def py_ord_def py_chr_def)
  from transformar_trama_idempotent [OF h] v
  have "transformar_trama [0x02, 0x0D, 0x31, 0x7F] = Inr [0x02, 0x0D, 0x31, 0x7F]"
    by auto
  with h v show ?thesis by simp
qed

section \<open>Properties of the decoding step\<close>

lemma str_find_from_absent: "c \<notin> set s \<Longrightarrow> str_find_from i s c = - 1"
  by (induction s arbitrary: i) auto

lemma str_find_from_first:
  "c \<notin> set pre \<Longrightarrow> str_find_from i (pre @ c # post) c = int (i + length pre)"
  by (induction pre arbitrary: i) auto

lemma str_find_absent: "c \<notin> set s \<Longrightarrow> str_find s c = - 1"
  by (simp add: str_find_def str_find_from_absent)

lemma str_find_append: "c \<notin> set pre \<Longrightarrow> str_find (pre @ c # post) c = int (length pre)"
  by (simp add: str_find_def str_find_from_first)

lemma str_find_first:
  assumes "p < length s" and "s ! p = c" and "\<forall>k<p. s ! k \<noteq> c"
  shows "str_find s c = int p"
proof -
  have split: "s = take p s @ c # drop (Suc p) s"
    using assms(1,2) id_take_nth_drop [of p s] by simp
  have "c \<notin> set (take p s)"
    using assms(1,3) by (auto simp: in_set_conv_nth)
  then have "str_find (take p s @ c # drop (Suc p) s) c = int (length (take p s))"
    by (rule str_find_append)
  with split assms(1) show ?thesis by simp
qed

lemma str_slice_nonneg:
  "0 \<le> i \<Longrightarrow> i \<le> j \<Longrightarrow> str_slice s i j = take (nat (j - i)) (drop (nat i) s)"
  by (auto simp: str_slice_def Let_def min_def)

lemma oTimer_Tick_weight_absent: "2 \<notin> set t \<Longrightarrow> oTimer_Tick_weight t = lit ''----''"
  by (simp add: oTimer_Tick_weight_def str_find_absent)

lemma oTimer_Tick_weight_found:
  assumes "str_find t 2 = int p"
  shows "oTimer_Tick_weight t = take 6 (drop (p + 4) t)"
proof -
  have "str_slice t (int p + 4) (int p + 4 + 6) = take (nat 6) (drop (nat (int p + 4)) t)"
    using str_slice_nonneg [of "int p + 4" "int p + 4 + 6" t] by simp
  moreover have "nat (int p + 4) = p + 4" by simp
  ultimately show ?thesis
    using assms by (simp add: oTimer_Tick_weight_def Let_def)
qed

lemma take6_nth:
  assumes "p + 10 \<le> length t"
  shows "take 6 (drop (p + 4) t) =
    [t ! (p + 4), t ! (p + 5), t ! (p + 6), t ! (p + 7), t ! (p + 8), t ! (p + 9)]"
proof (rule nth_equalityI)
  show "length (take 6 (drop (p + 4) t)) =
    length [t ! (p + 4), t ! (p + 5), t ! (p + 6), t ! (p + 7), t ! (p + 8), t ! (p + 9)]"
    using assms by simp
next
  fix i assume "i < length (take 6 (drop (p + 4) t))"
  then have i: "i < 6" by simp
  then consider "i = 0" | "i = 1" | "i = 2" | "i = 3" | "i = 4" | "i = 5" by linarith
  then show "take 6 (drop (p + 4) t) ! i =
    [t ! (p + 4), t ! (p + 5), t ! (p + 6), t ! (p + 7), t ! (p + 8), t ! (p + 9)] ! i"
    using assms by cases (simp_all add: add.commute)
qed

text \<open>
  C3. The decoding step has no raising statement: \<open>find\<close> and the slice return
  on every string, so its embedding is a function with no error result. On every
  string it yields the four dashes when \<open>0x02\<close> is absent, and otherwise the at
  most six characters that follow position \<open>p + 4\<close>, where \<open>p\<close> is the first
  position of \<open>0x02\<close>; when \<open>p + 4 + 6\<close> exceeds the length, these are the
  characters from \<open>p + 4\<close> to the end, possibly none.
\<close>

theorem oTimer_Tick_weight_total:
  "(2 \<notin> set t \<longrightarrow> oTimer_Tick_weight t = lit ''----'') \<and>
   (\<forall>p. p < length t \<and> t ! p = 2 \<and> (\<forall>k<p. t ! k \<noteq> 2) \<longrightarrow>
      oTimer_Tick_weight t = take 6 (drop (p + 4) t) \<and>
      (length t < p + 4 + 6 \<longrightarrow> oTimer_Tick_weight t = drop (p + 4) t))"
proof (intro conjI impI allI)
  assume "2 \<notin> set t"
  then show "oTimer_Tick_weight t = lit ''----''" by (rule oTimer_Tick_weight_absent)
next
  fix p assume h: "p < length t \<and> t ! p = 2 \<and> (\<forall>k<p. t ! k \<noteq> 2)"
  then have "str_find t 2 = int p" by (simp add: str_find_first)
  then show w: "oTimer_Tick_weight t = take 6 (drop (p + 4) t)"
    by (rule oTimer_Tick_weight_found)
  assume "length t < p + 4 + 6"
  then show "oTimer_Tick_weight t = drop (p + 4) t"
    using w by simp
qed

theorem oTimer_Tick_weight_total_witness:
  "2 \<notin> set (lit ''0123456789'') \<and>
   oTimer_Tick_weight (lit ''0123456789'') = lit ''----'' \<and>
   oTimer_Tick_weight [0x30, 0x02, 0x20, 0x20, 0x20, 0x31, 0x32] = [0x31, 0x32] \<and>
   oTimer_Tick_weight [0x30, 0x02, 0x20] = []"
proof -
  let ?a = "lit ''0123456789''"
  let ?b = "[0x30, 0x02, 0x20, 0x20, 0x20, 0x31, 0x32] :: pystr"
  let ?c = "[0x30, 0x02, 0x20] :: pystr"
  have ha: "2 \<notin> set ?a" by (simp add: lit_def)
  have hb: "1 < length ?b \<and> ?b ! 1 = 2 \<and> (\<forall>k<1. ?b ! k \<noteq> 2)" by simp
  have hc: "1 < length ?c \<and> ?c ! 1 = 2 \<and> (\<forall>k<1. ?c ! k \<noteq> 2)" by simp
  have lb: "length ?b < 1 + 4 + 6" by simp
  have lc: "length ?c < 1 + 4 + 6" by simp
  have "oTimer_Tick_weight ?a = lit ''----''"
    using oTimer_Tick_weight_total [of ?a] ha by blast
  moreover have "oTimer_Tick_weight ?b = drop (1 + 4) ?b"
    using oTimer_Tick_weight_total [of ?b] hb lb by blast
  moreover have "oTimer_Tick_weight ?c = drop (1 + 4) ?c"
    using oTimer_Tick_weight_total [of ?c] hc lc by blast
  ultimately show ?thesis using ha by simp
qed

text \<open>
  C4. When the first \<open>0x02\<close> of the frame is at index \<open>p\<close> and the frame has at
  least \<open>p + 10\<close> characters, the decoded weight is the six characters at the
  indices \<open>p + 4\<close> to \<open>p + 9\<close>; a frame made of a prefix free of \<open>0x02\<close>, then
  \<open>0x02\<close>, three characters and \<open>123456\<close> decodes to \<open>123456\<close>.
\<close>

theorem oTimer_Tick_weight_six:
  "(p < length t \<and> t ! p = 2 \<and> (\<forall>k<p. t ! k \<noteq> 2) \<and> p + 10 \<le> length t \<longrightarrow>
      oTimer_Tick_weight t =
        [t ! (p + 4), t ! (p + 5), t ! (p + 6), t ! (p + 7), t ! (p + 8), t ! (p + 9)]) \<and>
   (2 \<notin> set pre \<longrightarrow>
      oTimer_Tick_weight (pre @ [2, a, b, c] @ lit ''123456'' @ post) = lit ''123456'')"
proof (intro conjI impI)
  assume h: "p < length t \<and> t ! p = 2 \<and> (\<forall>k<p. t ! k \<noteq> 2) \<and> p + 10 \<le> length t"
  then have "str_find t 2 = int p" by (simp add: str_find_first)
  then have "oTimer_Tick_weight t = take 6 (drop (p + 4) t)"
    by (rule oTimer_Tick_weight_found)
  with h show "oTimer_Tick_weight t =
        [t ! (p + 4), t ! (p + 5), t ! (p + 6), t ! (p + 7), t ! (p + 8), t ! (p + 9)]"
    by (simp add: take6_nth)
next
  assume "2 \<notin> set pre"
  then have "str_find (pre @ 2 # ([a, b, c] @ lit ''123456'' @ post)) 2 = int (length pre)"
    by (rule str_find_append)
  then have "oTimer_Tick_weight (pre @ 2 # ([a, b, c] @ lit ''123456'' @ post)) =
      take 6 (drop (length pre + 4) (pre @ 2 # ([a, b, c] @ lit ''123456'' @ post)))"
    by (rule oTimer_Tick_weight_found)
  then show "oTimer_Tick_weight (pre @ [2, a, b, c] @ lit ''123456'' @ post) = lit ''123456''"
    by (simp add: lit_def)
qed

theorem oTimer_Tick_weight_six_witness:
  "oTimer_Tick_weight ([0x0D, 0x0A] @ [0x02, 0x2B, 0x20, 0x20] @ lit ''123456'' @ lit ''kg'') =
     lit ''123456'' \<and>
   oTimer_Tick_weight [0x0D, 0x02, 0x2B, 0x20, 0x20, 0x30, 0x30, 0x37, 0x35, 0x2E, 0x35, 0x0D] =
     [0x30, 0x30, 0x37, 0x35, 0x2E, 0x35]"
proof -
  let ?t = "[0x0D, 0x02, 0x2B, 0x20, 0x20, 0x30, 0x30, 0x37, 0x35, 0x2E, 0x35, 0x0D] :: pystr"
  have h1: "2 \<notin> set [0x0D, 0x0A :: nat]" by simp
  have h2: "1 < length ?t \<and> ?t ! 1 = 2 \<and> (\<forall>k<1. ?t ! k \<noteq> 2) \<and> 1 + 10 \<le> length ?t"
    by simp
  have "oTimer_Tick_weight ([0x0D, 0x0A] @ [0x02, 0x2B, 0x20, 0x20] @ lit ''123456'' @ lit ''kg'') =
     lit ''123456''"
    using oTimer_Tick_weight_six [of _ _ "[0x0D, 0x0A]"] h1 by blast
  moreover have "oTimer_Tick_weight ?t =
      [?t ! (1 + 4), ?t ! (1 + 5), ?t ! (1 + 6), ?t ! (1 + 7), ?t ! (1 + 8), ?t ! (1 + 9)]"
    using oTimer_Tick_weight_six [of 1 ?t] h2 by blast
  ultimately show ?thesis by simp
qed

section \<open>Properties of the loop\<close>

text \<open>The definitions that a concrete iteration unfolds.\<close>

lemmas tick_defs =
  oTimer_Tick_iteration_def oTimer_Tick_try_def oTimer_Tick_read_def oTimer_Tick_process_def
  oTimer_Tick_except_def oTimer_Tick_weight_def transformar_trama_def decode_latin1_def
  py_ord_def py_chr_def str_find_def str_slice_def lit_def Let_def

subsection \<open>The steps of one iteration\<close>

lemma oTimer_Tick_read_Inr:
  assumes "oTimer_Tick_read io self = Inr self1"
  shows "\<exists>chunk. latin1 chunk \<and> self1 = self\<lparr>cPeso := cPeso self @ chunk\<rparr>"
proof (cases "oComm_in_waiting io")
  case (Inl e)
  with assms show ?thesis by (simp add: oTimer_Tick_read_def)
next
  case (Inr n)
  show ?thesis
  proof (cases "n > 0")
    case False
    with Inr assms have "self1 = self\<lparr>cPeso := cPeso self @ []\<rparr>"
      by (simp add: oTimer_Tick_read_def)
    moreover have "latin1 []" by simp
    ultimately show ?thesis by blast
  next
    case True
    show ?thesis
    proof (cases "oComm_read io")
      case (Inl e)
      with Inr True assms show ?thesis by (simp add: oTimer_Tick_read_def)
    next
      case (Inr waiting)
      with \<open>oComm_in_waiting io = Inr n\<close> True assms
      have "self1 = self\<lparr>cPeso := cPeso self @ decode_latin1 (take (nat n) waiting)\<rparr>"
        by (simp add: oTimer_Tick_read_def Let_def)
      then show ?thesis using latin1_decode by blast
    qed
  qed
qed

lemma oTimer_Tick_read_Inl:
  "oTimer_Tick_read io self = Inl x \<Longrightarrow> snd x = self"
  by (auto simp: oTimer_Tick_read_def Let_def split: sum.splits if_splits)

lemma oTimer_Tick_read_latin1:
  assumes "latin1 (cPeso self)" and "oTimer_Tick_read io self = Inr self1"
  shows "latin1 (cPeso self1)"
  using oTimer_Tick_read_Inr [OF assms(2)] assms(1) by (auto simp: latin1_append)

lemma oTimer_Tick_process_long:
  assumes "latin1 (cPeso self1)" and "30 \<le> length (cPeso self1)"
  shows "oTimer_Tick_process self1 =
     Inr (self1\<lparr>txtTrama := map clear_high (cPeso self1),
               txtPeso := oTimer_Tick_weight (map clear_high (cPeso self1)),
               cPeso := []\<rparr>)"
  using assms by (simp add: oTimer_Tick_process_def transformar_trama_latin1)

lemma oTimer_Tick_process_short:
  assumes "length (cPeso self1) < 30"
  shows "oTimer_Tick_process self1 =
     Inr (if cPeso self1 = [] then self1\<lparr>txtPeso := lit ''----''\<rparr> else self1)"
  using assms by (simp add: oTimer_Tick_process_def)

lemma oTimer_Tick_process_Inl:
  "oTimer_Tick_process self = Inl x \<Longrightarrow> snd x = self"
  by (auto simp: oTimer_Tick_process_def split: sum.splits if_splits)

lemma oTimer_Tick_try_Inl:
  assumes "oTimer_Tick_try io self = Inl x"
  shows "is_open self \<and> txtPeso (snd x) = txtPeso self \<and> txtTrama (snd x) = txtTrama self
         \<and> is_open (snd x)"
proof -
  from assms have op: "is_open self"
    by (auto simp: oTimer_Tick_try_def split: if_splits)
  show ?thesis
  proof (cases "oTimer_Tick_read io self")
    case (Inl y)
    with assms op have "x = y" by (simp add: oTimer_Tick_try_def)
    with Inl op show ?thesis by (auto dest: oTimer_Tick_read_Inl)
  next
    case (Inr self1)
    with assms op have "oTimer_Tick_process self1 = Inl x" by (simp add: oTimer_Tick_try_def)
    then have "snd x = self1" by (rule oTimer_Tick_process_Inl)
    moreover obtain chunk where "self1 = self\<lparr>cPeso := cPeso self @ chunk\<rparr>"
      using oTimer_Tick_read_Inr [OF Inr] by blast
    ultimately show ?thesis using op by simp
  qed
qed

text \<open>
  C6. Let the buffer hold byte values, as it does in every reachable object. In an
  iteration whose read step returns with at least 30 characters in the buffer,
  the frame is transformed, published as \<open>txtTrama\<close> and decoded into
  \<open>txtPeso\<close>, and the buffer ends empty, whether or not \<open>0x02\<close> occurs in it.
  In every other iteration the buffer is not reset: it is what the read step
  left when fewer than 30 characters are there, and it is untouched when the port
  is closed or the read step raises.
\<close>

theorem oTimer_Tick_reset_by_length:
  assumes "latin1 (cPeso self)"
  shows "(is_open self \<and> oTimer_Tick_read io self = Inr self1 \<and> 30 \<le> length (cPeso self1) \<longrightarrow>
           (\<exists>tc. transformar_trama (cPeso self1) = Inr tc \<and>
              oTimer_Tick_iteration io self =
                self1\<lparr>txtTrama := tc, txtPeso := oTimer_Tick_weight tc, cPeso := []\<rparr>)) \<and>
         (is_open self \<and> oTimer_Tick_read io self = Inr self1 \<and> length (cPeso self1) < 30 \<longrightarrow>
           cPeso (oTimer_Tick_iteration io self) = cPeso self1) \<and>
         (\<not> is_open self \<or> (\<exists>x. oTimer_Tick_read io self = Inl x) \<longrightarrow>
           cPeso (oTimer_Tick_iteration io self) = cPeso self)"
proof (intro conjI impI)
  assume h: "is_open self \<and> oTimer_Tick_read io self = Inr self1 \<and> 30 \<le> length (cPeso self1)"
  then have l1: "latin1 (cPeso self1)"
    using assms oTimer_Tick_read_latin1 by blast
  then have tr: "transformar_trama (cPeso self1) = Inr (map clear_high (cPeso self1))"
    by (rule transformar_trama_latin1)
  have "oTimer_Tick_iteration io self =
      self1\<lparr>txtTrama := map clear_high (cPeso self1),
            txtPeso := oTimer_Tick_weight (map clear_high (cPeso self1)), cPeso := []\<rparr>"
    using h l1 by (simp add: oTimer_Tick_iteration_def oTimer_Tick_try_def oTimer_Tick_process_long)
  with tr show "\<exists>tc. transformar_trama (cPeso self1) = Inr tc \<and>
              oTimer_Tick_iteration io self =
                self1\<lparr>txtTrama := tc, txtPeso := oTimer_Tick_weight tc, cPeso := []\<rparr>"
    by blast
next
  assume h: "is_open self \<and> oTimer_Tick_read io self = Inr self1 \<and> length (cPeso self1) < 30"
  then show "cPeso (oTimer_Tick_iteration io self) = cPeso self1"
    by (simp add: oTimer_Tick_iteration_def oTimer_Tick_try_def oTimer_Tick_process_short)
next
  assume h: "\<not> is_open self \<or> (\<exists>x. oTimer_Tick_read io self = Inl x)"
  show "cPeso (oTimer_Tick_iteration io self) = cPeso self"
  proof (cases "is_open self")
    case False
    then show ?thesis by (simp add: oTimer_Tick_iteration_def oTimer_Tick_try_def)
  next
    case True
    with h obtain x where x: "oTimer_Tick_read io self = Inl x" by blast
    then have "snd x = self" by (rule oTimer_Tick_read_Inl)
    then obtain e where "x = (e, self)" by (cases x) simp
    with x True show ?thesis
      by (simp add: oTimer_Tick_iteration_def oTimer_Tick_try_def oTimer_Tick_except_def
          Let_def split: sum.splits)
  qed
qed

theorem oTimer_Tick_reset_by_length_witness:
  "latin1 (cPeso weighing) \<and> is_open weighing \<and>
   oTimer_Tick_iteration (port_with blank_frame) weighing =
     \<lparr>cPeso = [], txtPeso = lit ''----'', txtTrama = decode_latin1 blank_frame,
      timer_active = True, is_open = True\<rparr> \<and>
   cPeso (oTimer_Tick_iteration (port_with [0x82, 0x8D]) weighing) = [0x82, 0x8D] \<and>
   cPeso (oTimer_Tick_iteration port_read_failing weighing) = cPeso weighing"
proof -
  have l: "latin1 (cPeso weighing)" by simp
  let ?s1 = "weighing\<lparr>cPeso := decode_latin1 blank_frame\<rparr>"
  let ?s2 = "weighing\<lparr>cPeso := [0x82, 0x8D]\<rparr>"
  have r1: "is_open weighing \<and> oTimer_Tick_read (port_with blank_frame) weighing = Inr ?s1 \<and>
      30 \<le> length (cPeso ?s1)"
    by (simp add: oTimer_Tick_read_def decode_latin1_def)
  have r2: "is_open weighing \<and> oTimer_Tick_read (port_with [0x82, 0x8D]) weighing = Inr ?s2 \<and>
      length (cPeso ?s2) < 30"
    by (simp add: oTimer_Tick_read_def decode_latin1_def)
  have r3: "\<not> is_open weighing \<or> (\<exists>x. oTimer_Tick_read port_read_failing weighing = Inl x)"
    by (simp add: oTimer_Tick_read_def)
  obtain tc where tc: "transformar_trama (cPeso ?s1) = Inr tc"
    and it: "oTimer_Tick_iteration (port_with blank_frame) weighing =
      ?s1\<lparr>txtTrama := tc, txtPeso := oTimer_Tick_weight tc, cPeso := []\<rparr>"
    using oTimer_Tick_reset_by_length [OF l, of "port_with blank_frame" ?s1] r1 by blast
  have "transformar_trama (cPeso ?s1) = Inr (decode_latin1 blank_frame)"
    by (simp add: transformar_trama_def decode_latin1_def py_ord_def py_chr_def)
  with tc have tcv: "tc = decode_latin1 blank_frame" by simp
  have "oTimer_Tick_weight (decode_latin1 blank_frame) = lit ''----''"
    by (simp add: oTimer_Tick_weight_def str_find_def decode_latin1_def)
  with it tcv have c1: "oTimer_Tick_iteration (port_with blank_frame) weighing =
     \<lparr>cPeso = [], txtPeso = lit ''----'', txtTrama = decode_latin1 blank_frame,
      timer_active = True, is_open = True\<rparr>"
    by simp
  have c2: "cPeso (oTimer_Tick_iteration (port_with [0x82, 0x8D]) weighing) = cPeso ?s2"
    using oTimer_Tick_reset_by_length [OF l, of "port_with [0x82, 0x8D]" ?s2] r2 by blast
  have c3: "cPeso (oTimer_Tick_iteration port_read_failing weighing) = cPeso weighing"
    using oTimer_Tick_reset_by_length [OF l, of port_read_failing] r3 by blast
  from l c1 c2 c3 show ?thesis by simp
qed

text \<open>
  C7. In an iteration on the open port whose read step returns with fewer than 30
  characters in the buffer: when the buffer is empty \<open>txtPeso\<close> becomes the four
  dashes and \<open>txtTrama\<close> keeps its value; when it is not empty both \<open>txtPeso\<close> and
  \<open>txtTrama\<close> keep their values.
\<close>

theorem oTimer_Tick_short_buffer:
  assumes "is_open self" and "oTimer_Tick_read io self = Inr self1"
    and "length (cPeso self1) < 30"
  shows "(cPeso self1 = [] \<longrightarrow>
            txtPeso (oTimer_Tick_iteration io self) = lit ''----'' \<and>
            txtTrama (oTimer_Tick_iteration io self) = txtTrama self) \<and>
         (cPeso self1 \<noteq> [] \<longrightarrow>
            txtPeso (oTimer_Tick_iteration io self) = txtPeso self \<and>
            txtTrama (oTimer_Tick_iteration io self) = txtTrama self)"
proof -
  obtain chunk where s1: "self1 = self\<lparr>cPeso := cPeso self @ chunk\<rparr>"
    using oTimer_Tick_read_Inr [OF assms(2)] by blast
  have "oTimer_Tick_iteration io self =
      (if cPeso self1 = [] then self1\<lparr>txtPeso := lit ''----''\<rparr> else self1)"
    using assms by (simp add: oTimer_Tick_iteration_def oTimer_Tick_try_def
        oTimer_Tick_process_short)
  then show ?thesis using s1 by simp
qed

theorem oTimer_Tick_short_buffer_witness:
  "is_open weighing \<and>
   oTimer_Tick_read (port_with []) weighing = Inr weighing \<and>
   txtPeso (oTimer_Tick_iteration (port_with []) weighing) = lit ''----'' \<and>
   txtTrama (oTimer_Tick_iteration (port_with []) weighing) = lit ''frame'' \<and>
   oTimer_Tick_read (port_with [0x82, 0x8D]) weighing = Inr (weighing\<lparr>cPeso := [0x82, 0x8D]\<rparr>) \<and>
   txtPeso (oTimer_Tick_iteration (port_with [0x82, 0x8D]) weighing) = lit ''001234'' \<and>
   txtTrama (oTimer_Tick_iteration (port_with [0x82, 0x8D]) weighing) = lit ''frame''"
proof -
  let ?s2 = "weighing\<lparr>cPeso := [0x82, 0x8D]\<rparr>"
  have o: "is_open weighing" by simp
  have r1: "oTimer_Tick_read (port_with []) weighing = Inr weighing"
    by (simp add: oTimer_Tick_read_def)
  have r2: "oTimer_Tick_read (port_with [0x82, 0x8D]) weighing = Inr ?s2"
    by (simp add: oTimer_Tick_read_def decode_latin1_def)
  have l1: "length (cPeso weighing) < 30" by simp
  have l2: "length (cPeso ?s2) < 30" by simp
  have e1: "cPeso weighing = []" by simp
  have e2: "cPeso ?s2 \<noteq> []" by simp
  have c1: "txtPeso (oTimer_Tick_iteration (port_with []) weighing) = lit ''----'' \<and>
            txtTrama (oTimer_Tick_iteration (port_with []) weighing) = txtTrama weighing"
    using oTimer_Tick_short_buffer [OF o r1 l1] e1 by blast
  have c2: "txtPeso (oTimer_Tick_iteration (port_with [0x82, 0x8D]) weighing) = txtPeso weighing \<and>
            txtTrama (oTimer_Tick_iteration (port_with [0x82, 0x8D]) weighing) = txtTrama weighing"
    using oTimer_Tick_short_buffer [OF o r2 l2] e2 by blast
  from o r1 r2 c1 c2 show ?thesis by simp
qed

text \<open>
  C8. When the body of the \<open>try\<close> raises, the iteration still returns: it is the
  \<open>except\<close> clause applied to the object at the raise. \<open>timer_active\<close> is then
  false, the port is closed whenever \<open>close\<close> returns (and an exception of
  \<open>close\<close> changes nothing else), \<open>txtPeso\<close> and \<open>txtTrama\<close> have the values
  from before the iteration, and the loop ends there, whatever the port would do in
  later iterations.
\<close>

theorem oTimer_Tick_read_error:
  assumes "oTimer_Tick_try io self = Inl (e, self')"
  shows "oTimer_Tick_iteration io self = oTimer_Tick_except io self' \<and>
         \<not> timer_active (oTimer_Tick_iteration io self) \<and>
         (oComm_close io = Inr () \<longrightarrow> \<not> is_open (oTimer_Tick_iteration io self)) \<and>
         txtPeso (oTimer_Tick_iteration io self) = txtPeso self \<and>
         txtTrama (oTimer_Tick_iteration io self) = txtTrama self \<and>
         (timer_active self \<longrightarrow>
            (\<forall>ios. oTimer_Tick (io # ios) self = Some (oTimer_Tick_iteration io self)))"
proof -
  let ?it = "oTimer_Tick_iteration io self"
  have it: "?it = oTimer_Tick_except io self'"
    using assms by (simp add: oTimer_Tick_iteration_def)
  have keep: "txtPeso self' = txtPeso self \<and> txtTrama self' = txtTrama self \<and> is_open self'"
    using oTimer_Tick_try_Inl [OF assms] by simp
  have act: "\<not> timer_active ?it"
    unfolding it by (simp add: oTimer_Tick_except_def Let_def split: sum.splits)
  have cl: "oComm_close io = Inr () \<longrightarrow> \<not> is_open ?it"
    unfolding it using keep by (simp add: oTimer_Tick_except_def Let_def)
  have pub: "txtPeso ?it = txtPeso self \<and> txtTrama ?it = txtTrama self"
    unfolding it using keep by (simp add: oTimer_Tick_except_def Let_def split: sum.splits)
  have stop: "oTimer_Tick ios ?it = Some ?it" for ios
    using act by (cases ios) simp_all
  have "timer_active self \<longrightarrow> (\<forall>ios. oTimer_Tick (io # ios) self = Some ?it)"
    using stop by simp
  with it act cl pub show ?thesis by blast
qed

theorem oTimer_Tick_read_error_witness:
  "oTimer_Tick_try port_read_failing weighing = Inl (SerialException, weighing) \<and>
   oTimer_Tick_iteration port_read_failing weighing =
     \<lparr>cPeso = [], txtPeso = lit ''001234'', txtTrama = lit ''frame'', timer_active = False,
      is_open = False\<rparr> \<and>
   oTimer_Tick [port_read_failing, port_with spec_head] weighing =
     Some \<lparr>cPeso = [], txtPeso = lit ''001234'', txtTrama = lit ''frame'', timer_active = False,
      is_open = False\<rparr> \<and>
   oTimer_Tick_try port_failing weighing = Inl (SerialException, weighing) \<and>
   oTimer_Tick_iteration port_failing weighing =
     \<lparr>cPeso = [], txtPeso = lit ''001234'', txtTrama = lit ''frame'', timer_active = False,
      is_open = True\<rparr>"
proof -
  have t1: "oTimer_Tick_try port_read_failing weighing = Inl (SerialException, weighing)"
    by (simp add: oTimer_Tick_try_def oTimer_Tick_read_def)
  have t2: "oTimer_Tick_try port_failing weighing = Inl (SerialException, weighing)"
    by (simp add: oTimer_Tick_try_def oTimer_Tick_read_def)
  have x1: "oTimer_Tick_except port_read_failing weighing =
     \<lparr>cPeso = [], txtPeso = lit ''001234'', txtTrama = lit ''frame'', timer_active = False,
      is_open = False\<rparr>"
    by (simp add: oTimer_Tick_except_def)
  have x2: "oTimer_Tick_except port_failing weighing =
     \<lparr>cPeso = [], txtPeso = lit ''001234'', txtTrama = lit ''frame'', timer_active = False,
      is_open = True\<rparr>"
    by (simp add: oTimer_Tick_except_def)
  have a: "timer_active weighing" by simp
  have i1: "oTimer_Tick_iteration port_read_failing weighing =
      oTimer_Tick_except port_read_failing weighing"
    and lp: "oTimer_Tick [port_read_failing, port_with spec_head] weighing =
      Some (oTimer_Tick_iteration port_read_failing weighing)"
    using oTimer_Tick_read_error [OF t1] a by blast+
  have i2: "oTimer_Tick_iteration port_failing weighing = oTimer_Tick_except port_failing weighing"
    using oTimer_Tick_read_error [OF t2] by blast
  from t1 t2 i1 i2 lp x1 x2 show ?thesis by simp
qed

subsection \<open>The end-to-end example\<close>

lemma take_all_int: "int (length xs) \<le> n \<Longrightarrow> take (nat n) xs = xs"
  by simp

text \<open>
  C1, as amended. One iteration on the open port with an empty buffer, where the
  port delivers the bytes \<open>82 8D 02 00 00 00 31 32 33 34 35 36\<close> followed by at
  least 18 more, publishes as weight the characters at the indices 4 to 9 of the
  transformed frame, which are \<open>00 00 31 32 33 34\<close>: the transformation turns the
  leading \<open>82\<close> into \<open>02\<close>, so the first marker of the transformed frame is at
  index 0. The transformed frame is published and the buffer ends empty.
\<close>

theorem oTimer_Tick_end_to_end:
  assumes "is_open self" and "cPeso self = []"
    and "oComm_in_waiting io = Inr n" and "int (length (spec_head @ pad)) \<le> n"
    and "oComm_read io = Inr (spec_head @ pad)" and "18 \<le> length pad"
  shows "txtPeso (oTimer_Tick_iteration io self) = [0x00, 0x00, 0x31, 0x32, 0x33, 0x34] \<and>
         transformar_trama (decode_latin1 (spec_head @ pad)) =
           Inr (txtTrama (oTimer_Tick_iteration io self)) \<and>
         str_find (txtTrama (oTimer_Tick_iteration io self)) 0x02 = 0 \<and>
         cPeso (oTimer_Tick_iteration io self) = []"
proof -
  let ?raw = "decode_latin1 (spec_head @ pad)"
  let ?tc = "map clear_high ?raw"
  have n: "0 < n" using assms(4) by simp
  have tk: "take (nat n) (spec_head @ pad) = spec_head @ pad"
    using assms(4) by (rule take_all_int)
  have rd: "oTimer_Tick_read io self = Inr (self\<lparr>cPeso := ?raw\<rparr>)"
    using assms(2,3,5) n tk by (simp add: oTimer_Tick_read_def Let_def)
  have l: "latin1 ?raw" by (rule latin1_decode)
  have len: "30 \<le> length ?raw" using assms(6) by (simp add: decode_latin1_def)
  have it: "oTimer_Tick_iteration io self =
      self\<lparr>cPeso := [], txtTrama := ?tc, txtPeso := oTimer_Tick_weight ?tc\<rparr>"
    using assms(1) rd l len
    by (simp add: oTimer_Tick_iteration_def oTimer_Tick_try_def oTimer_Tick_process_long)
  have tc: "?tc = [] @ 0x02 #
      ([0x0D, 0x02, 0x00, 0x00, 0x00, 0x31, 0x32, 0x33, 0x34, 0x35, 0x36] @
       map clear_high (decode_latin1 pad))"
    by (simp add: decode_latin1_def clear_high_def)
  have f: "str_find ?tc 0x02 = int 0"
    unfolding tc using str_find_append [of 2 "[]"] by simp
  then have "oTimer_Tick_weight ?tc = take 6 (drop (0 + 4) ?tc)"
    by (rule oTimer_Tick_weight_found)
  then have w: "oTimer_Tick_weight ?tc = [0x00, 0x00, 0x31, 0x32, 0x33, 0x34]"
    unfolding tc by simp
  have "transformar_trama ?raw = Inr ?tc"
    using l by (rule transformar_trama_latin1)
  with it w f show ?thesis by simp
qed

theorem oTimer_Tick_end_to_end_witness:
  "is_open polling \<and> cPeso polling = [] \<and>
   int (length (spec_head @ spaces18 @ [0x0D, 0x0A])) \<le> 64 \<and>
   18 \<le> length (spaces18 @ [0x0D, 0x0A]) \<and>
   txtPeso (oTimer_Tick_iteration
     \<lparr>oComm_open = Inr (), oComm_in_waiting = Inr 64,
      oComm_read = Inr (spec_head @ spaces18 @ [0x0D, 0x0A]), oComm_close = Inr ()\<rparr> polling) =
     [0x00, 0x00, 0x31, 0x32, 0x33, 0x34] \<and>
   cPeso (oTimer_Tick_iteration
     \<lparr>oComm_open = Inr (), oComm_in_waiting = Inr 64,
      oComm_read = Inr (spec_head @ spaces18 @ [0x0D, 0x0A]), oComm_close = Inr ()\<rparr> polling) = []"
proof -
  let ?io = "\<lparr>oComm_open = Inr (), oComm_in_waiting = Inr 64,
      oComm_read = Inr (spec_head @ spaces18 @ [0x0D, 0x0A]), oComm_close = Inr ()\<rparr>"
  have h1: "is_open polling" and h2: "cPeso polling = []" by simp_all
  have h3: "oComm_in_waiting ?io = Inr 64" by simp
  have h4: "int (length (spec_head @ spaces18 @ [0x0D, 0x0A])) \<le> 64" by simp
  have h5: "oComm_read ?io = Inr (spec_head @ spaces18 @ [0x0D, 0x0A])" by simp
  have h6: "18 \<le> length (spaces18 @ [0x0D, 0x0A])" by simp
  from oTimer_Tick_end_to_end [OF h1 h2 h3 h4 h5 h6] h1 h2 h4 h6
  show ?thesis by blast
qed

text \<open>
  The weight \<open>123456\<close> is not what the iteration publishes on the example padded
  with 18 spaces.
\<close>

theorem oTimer_Tick_end_to_end_counterexample:
  "txtPeso (oTimer_Tick_iteration (port_with (spec_head @ spaces18)) polling) =
     [0x00, 0x00, 0x31, 0x32, 0x33, 0x34] \<and>
   txtPeso (oTimer_Tick_iteration (port_with (spec_head @ spaces18)) polling) \<noteq> lit ''123456''"
  by (simp add: tick_defs)

subsection \<open>Stopping the reading\<close>

lemma oTimer_Tick_process_Inr:
  "oTimer_Tick_process self = Inr self' \<Longrightarrow>
   timer_active self' = timer_active self \<and> is_open self' = is_open self"
  by (auto simp: oTimer_Tick_process_def split: sum.splits if_splits)

lemma oTimer_Tick_try_Inr:
  assumes "oTimer_Tick_try io self = Inr self'"
  shows "timer_active self' = timer_active self \<and> is_open self' = is_open self"
proof (cases "is_open self")
  case False
  with assms show ?thesis by (simp add: oTimer_Tick_try_def)
next
  case True
  with assms obtain self1 where r: "oTimer_Tick_read io self = Inr self1"
    and p: "oTimer_Tick_process self1 = Inr self'"
    by (auto simp: oTimer_Tick_try_def split: sum.splits)
  obtain chunk where "self1 = self\<lparr>cPeso := cPeso self @ chunk\<rparr>"
    using oTimer_Tick_read_Inr [OF r] by blast
  with oTimer_Tick_process_Inr [OF p] show ?thesis by simp
qed

lemma oTimer_Tick_except_inactive: "\<not> timer_active (oTimer_Tick_except io self)"
  by (simp add: oTimer_Tick_except_def Let_def split: sum.splits)

lemma oTimer_Tick_iteration_inactive:
  assumes "\<not> timer_active self"
  shows "\<not> timer_active (oTimer_Tick_iteration io self)"
proof (cases "oTimer_Tick_try io self")
  case (Inl x)
  then show ?thesis
    by (cases x) (simp add: oTimer_Tick_iteration_def oTimer_Tick_except_inactive)
next
  case (Inr self')
  with assms oTimer_Tick_try_Inr [OF Inr] show ?thesis
    by (simp add: oTimer_Tick_iteration_def)
qed

text \<open>The body of the loop never reads \<open>timer_active\<close>.\<close>

lemma oTimer_Tick_read_flag:
  "oTimer_Tick_read io (self\<lparr>timer_active := b\<rparr>) =
   map_sum (apsnd (timer_active_update (\<lambda>_. b))) (timer_active_update (\<lambda>_. b))
     (oTimer_Tick_read io self)"
  by (simp add: oTimer_Tick_read_def Let_def split: sum.splits)

lemma oTimer_Tick_process_flag:
  "oTimer_Tick_process (self\<lparr>timer_active := b\<rparr>) =
   map_sum (apsnd (timer_active_update (\<lambda>_. b))) (timer_active_update (\<lambda>_. b))
     (oTimer_Tick_process self)"
  by (simp add: oTimer_Tick_process_def split: sum.splits)

lemma oTimer_Tick_try_flag:
  "oTimer_Tick_try io (self\<lparr>timer_active := b\<rparr>) =
   map_sum (apsnd (timer_active_update (\<lambda>_. b))) (timer_active_update (\<lambda>_. b))
     (oTimer_Tick_try io self)"
proof (cases "oTimer_Tick_read io self")
  case (Inl x)
  then show ?thesis
    by (simp add: oTimer_Tick_try_def oTimer_Tick_read_flag)
next
  case (Inr self1)
  then show ?thesis
    by (simp add: oTimer_Tick_try_def oTimer_Tick_read_flag oTimer_Tick_process_flag)
qed

lemma oTimer_Tick_except_flag:
  "oTimer_Tick_except io (self\<lparr>timer_active := b\<rparr>) = oTimer_Tick_except io self"
  by (simp add: oTimer_Tick_except_def Let_def)

lemma oTimer_Tick_except_txtTrama: "txtTrama (oTimer_Tick_except io self) = txtTrama self"
  by (simp add: oTimer_Tick_except_def Let_def split: sum.splits)

lemma oTimer_Tick_iteration_txtTrama_flag:
  "txtTrama (oTimer_Tick_iteration io (self\<lparr>timer_active := b\<rparr>)) =
   txtTrama (oTimer_Tick_iteration io self)"
proof (cases "oTimer_Tick_try io self")
  case (Inl x)
  then show ?thesis
    by (cases x) (simp add: oTimer_Tick_iteration_def oTimer_Tick_try_flag
        oTimer_Tick_except_flag)
next
  case (Inr self')
  then show ?thesis
    by (simp add: oTimer_Tick_iteration_def oTimer_Tick_try_flag)
qed

text \<open>
  C2, as amended. On an object with \<open>timer_active\<close> set, and when \<open>close\<close> returns,
  \<open>toggle_connection\<close> returns with \<open>timer_active\<close> false, the port closed, the
  weight \<open>txtPeso\<close> equal to \<open>0\<close> and the buffer \<open>cPeso\<close> empty. It does not
  assign \<open>txtTrama\<close>, which keeps the frame last published by the loop; a status
  read then answers with the weight \<open>0\<close> and that frame.
\<close>

theorem toggle_connection_stop:
  assumes "timer_active self" and "oComm_close io = Inr ()"
  shows "\<exists>self'. toggle_connection io pending self = Inr self' \<and>
           \<not> timer_active self' \<and> txtPeso self' = lit ''0'' \<and> cPeso self' = [] \<and>
           \<not> is_open self' \<and>
           txtTrama self' =
             (case pending of None \<Rightarrow> txtTrama self
              | Some tio \<Rightarrow> txtTrama (oTimer_Tick_iteration tio self)) \<and>
           home self' = (lit ''0'', txtTrama self', False)"
proof -
  let ?s1 = "self\<lparr>timer_active := False\<rparr>"
  let ?s2 = "case pending of None \<Rightarrow> ?s1 | Some tio \<Rightarrow> oTimer_Tick_iteration tio ?s1"
  have off: "\<not> timer_active ?s2"
    by (cases pending) (simp_all add: oTimer_Tick_iteration_inactive)
  have tr: "txtTrama ?s2 =
      (case pending of None \<Rightarrow> txtTrama self
       | Some tio \<Rightarrow> txtTrama (oTimer_Tick_iteration tio self))"
    by (cases pending) (simp_all add: oTimer_Tick_iteration_txtTrama_flag)
  let ?r = "?s2\<lparr>is_open := False, txtPeso := lit ''0'', cPeso := []\<rparr>"
  have "toggle_connection io pending self = Inr ?r"
    using assms by (cases "is_open ?s2") (simp_all add: toggle_connection_def Let_def)
  moreover have "\<not> timer_active ?r" using off by simp
  moreover have "txtTrama ?r = txtTrama ?s2" by simp
  ultimately show ?thesis
    using tr by (simp add: home_def)
qed

theorem toggle_connection_stop_witness:
  "timer_active weighing \<and>
   toggle_connection (port_with []) None weighing =
     Inr \<lparr>cPeso = [], txtPeso = lit ''0'', txtTrama = lit ''frame'', timer_active = False,
          is_open = False\<rparr> \<and>
   home \<lparr>cPeso = [], txtPeso = lit ''0'', txtTrama = lit ''frame'', timer_active = False,
          is_open = False\<rparr> = (lit ''0'', lit ''frame'', False)"
proof -
  have a: "timer_active weighing" by simp
  have c: "oComm_close (port_with []) = Inr ()" by simp
  obtain self' where r: "toggle_connection (port_with []) None weighing = Inr self'"
    and h: "home self' = (lit ''0'', txtTrama self', False)"
    using toggle_connection_stop [OF a c, of None] by blast
  have v: "toggle_connection (port_with []) None weighing =
     Inr \<lparr>cPeso = [], txtPeso = lit ''0'', txtTrama = lit ''frame'', timer_active = False,
          is_open = False\<rparr>"
    by (simp add: toggle_connection_def)
  with r have "self' = \<lparr>cPeso = [], txtPeso = lit ''0'', txtTrama = lit ''frame'',
      timer_active = False, is_open = False\<rparr>"
    by simp
  with h a v show ?thesis by simp
qed

text \<open>
  After stopping, the status is not the four dashes with an empty frame; and when
  \<open>close\<close> raises, \<open>toggle_connection\<close> raises with the weight not reset.
\<close>

theorem toggle_connection_stop_counterexample:
  "toggle_connection (port_with []) None weighing =
     Inr \<lparr>cPeso = [], txtPeso = lit ''0'', txtTrama = lit ''frame'', timer_active = False,
          is_open = False\<rparr> \<and>
   home \<lparr>cPeso = [], txtPeso = lit ''0'', txtTrama = lit ''frame'', timer_active = False,
          is_open = False\<rparr> \<noteq> (lit ''----'', [], False) \<and>
   lit ''0'' \<noteq> lit ''----'' \<and> lit ''frame'' \<noteq> [] \<and>
   toggle_connection port_failing None weighing =
     Inl (SerialException,
       \<lparr>cPeso = [], txtPeso = lit ''001234'', txtTrama = lit ''frame'', timer_active = False,
        is_open = True\<rparr>)"
  by (simp add: toggle_connection_def home_def lit_def)

subsection \<open>Invariants of the reachable objects\<close>

text \<open>
  The buffer of a reachable object holds byte values, and the port is open whenever
  \<open>timer_active\<close> is set: the hypotheses under which the iterations are described
  above hold at every iteration of the running loop.
\<close>

lemma oTimer_Tick_process_latin1:
  assumes "latin1 (cPeso self)"
  shows "case oTimer_Tick_process self of
           Inl x \<Rightarrow> latin1 (cPeso (snd x)) | Inr self' \<Rightarrow> latin1 (cPeso self')"
  using assms by (auto simp: oTimer_Tick_process_def split: sum.splits)

lemma oTimer_Tick_try_latin1:
  assumes "latin1 (cPeso self)"
  shows "case oTimer_Tick_try io self of
           Inl x \<Rightarrow> latin1 (cPeso (snd x)) | Inr self' \<Rightarrow> latin1 (cPeso self')"
proof (cases "is_open self")
  case False
  with assms show ?thesis by (simp add: oTimer_Tick_try_def)
next
  case True
  show ?thesis
  proof (cases "oTimer_Tick_read io self")
    case (Inl x)
    with True assms oTimer_Tick_read_Inl [OF Inl] show ?thesis
      by (simp add: oTimer_Tick_try_def)
  next
    case (Inr self1)
    then have "latin1 (cPeso self1)"
      using assms oTimer_Tick_read_latin1 by blast
    then show ?thesis
      using True Inr oTimer_Tick_process_latin1 [of self1] by (simp add: oTimer_Tick_try_def)
  qed
qed

lemma oTimer_Tick_except_cPeso: "cPeso (oTimer_Tick_except io self) = cPeso self"
  by (simp add: oTimer_Tick_except_def Let_def split: sum.splits)

lemma oTimer_Tick_iteration_latin1:
  assumes "latin1 (cPeso self)"
  shows "latin1 (cPeso (oTimer_Tick_iteration io self))"
proof (cases "oTimer_Tick_try io self")
  case (Inl x)
  with oTimer_Tick_try_latin1 [OF assms, of io] show ?thesis
    by (cases x) (simp add: oTimer_Tick_iteration_def oTimer_Tick_except_cPeso)
next
  case (Inr self')
  with oTimer_Tick_try_latin1 [OF assms, of io] show ?thesis
    by (simp add: oTimer_Tick_iteration_def)
qed

lemma oTimer_Tick_iteration_open:
  assumes "timer_active self \<longrightarrow> is_open self"
  shows "timer_active (oTimer_Tick_iteration io self) \<longrightarrow>
         is_open (oTimer_Tick_iteration io self)"
proof (cases "oTimer_Tick_try io self")
  case (Inl x)
  then show ?thesis
    by (cases x) (simp add: oTimer_Tick_iteration_def oTimer_Tick_except_inactive)
next
  case (Inr self')
  with assms oTimer_Tick_try_Inr [OF Inr] show ?thesis
    by (simp add: oTimer_Tick_iteration_def)
qed

lemma toggle_connection_invariant:
  assumes "latin1 (cPeso self)" and "timer_active self \<longrightarrow> is_open self"
    and "toggle_connection io pending self = Inr self' \<or>
         toggle_connection io pending self = Inl (e, self')"
  shows "latin1 (cPeso self') \<and> (timer_active self' \<longrightarrow> is_open self')"
proof (cases "timer_active self")
  case False
  with assms show ?thesis
    by (auto simp: toggle_connection_def split: sum.splits)
next
  case True
  let ?s1 = "self\<lparr>timer_active := False\<rparr>"
  let ?s2 = "case pending of None \<Rightarrow> ?s1 | Some tio \<Rightarrow> oTimer_Tick_iteration tio ?s1"
  have off: "\<not> timer_active ?s2"
    by (cases pending) (simp_all add: oTimer_Tick_iteration_inactive)
  have l: "latin1 (cPeso ?s2)"
    using assms(1) by (cases pending) (simp_all add: oTimer_Tick_iteration_latin1)
  have "self' = ?s2 \<or> self' = ?s2\<lparr>is_open := False, txtPeso := lit ''0'', cPeso := []\<rparr> \<or>
        self' = ?s2\<lparr>txtPeso := lit ''0'', cPeso := []\<rparr>"
    using assms(3) True
    by (auto simp: toggle_connection_def Let_def split: sum.splits if_splits)
  then show ?thesis using off l by auto
qed

lemma reachable_invariant:
  "reachable self \<Longrightarrow> latin1 (cPeso self) \<and> (timer_active self \<longrightarrow> is_open self)"
proof (induction rule: reachable.induct)
  case init
  show ?case by (simp add: BalanzaApp_init_def)
next
  case (tick self io)
  then show ?case
    using oTimer_Tick_iteration_latin1 oTimer_Tick_iteration_open by blast
next
  case (toggle self io pending self')
  then show ?case
    using toggle_connection_invariant [of self io pending self'] by blast
next
  case (toggle_raises self io pending e self')
  then show ?case
    using toggle_connection_invariant [of self io pending self' e] by blast
qed

end
